theory Spec2Isabelle
  imports Main "HOL-Library.Word" "HOL-Library.Tree"
begin

unbundle bit_operations_syntax

section \<open>Data model of mm/lksm.c\<close>

text \<open>
  The model follows the configuration in which the file is built without CONFIG_NUMA
  (\<open>ksm_merge_across_nodes\<close> is the constant 1 and the macro NUMA yields 0, so there is
  one stable and one unstable tree), without CONFIG_LKSM_FILTER and without CONFIG_DEBUG_VM (\<open>VM_BUG_ON\<close>
  compiles to nothing; \<open>BUG_ON\<close> is modelled as the error \<open>BUG\<close>).

  A leading \<open>u_\<close> in a name stands for the leading double underscore of the source's
  name. Pointers are natural numbers indexing the slab caches; \<open>NULL\<close> is \<open>None\<close>. The red-black
  trees of linux/rbtree.h are binary trees of such pointers: recolouring and rotations,
  which change the shape but never the in-order sequence, are not modelled. Page reference
  counts, page locks held by the scanner itself and transparent huge pages are not
  modelled; what another task holds (a lock, an extra reference, a frozen reference count)
  is a field of the page that the model only reads.
\<close>

type_synonym ulong = "64 word"
type_synonym u32 = "32 word"

datatype error = BUG | HANG

datatype page_mapping = MAPPING_NULL | MAPPING_ANON | MAPPING_KSM "nat option"

record page =
  mapping :: page_mapping
  content :: "8 word list"
  count_zero :: bool
  swapcache :: bool
  locked :: bool
  pinned :: bool
  mapcount :: nat

datatype page_ptr = NULL_PAGE | PAGE ulong | ERR_PTR_EBUSY

datatype fault = VM_FAULT_WRITE | VM_FAULT_OOM | VM_FAULT_SIGBUS | VM_FAULT_SIGSEGV
  | VM_FAULT_NONE

record pte =
  pte_pfn :: ulong
  pte_write :: bool

text \<open>
  A \<open>vm_area_struct\<close> covers \<open>vm_pages\<close> pages from \<open>vm_start\<close>; \<open>vm_mergeable\<close> is the flag
  VM_MERGEABLE and \<open>vm_anon_vma\<close> says that \<open>anon_vma\<close> is set. An \<open>mm_struct\<close> has its vmas
  in address order, a page table from page-aligned addresses to entries, the outcome
  \<open>handle_mm_fault\<close> gives for a write fault on one of its KSM pages, and the fault count
  of its owner (\<open>maj_flt + min_flt\<close>).
\<close>

record vm_area_struct =
  vm_start :: ulong
  vm_pages :: nat
  vm_mergeable :: bool
  vm_anon_vma :: bool

record mm_struct =
  mm_users :: nat
  mmap :: "vm_area_struct list"
  ptes :: "ulong \<Rightarrow> pte option"
  fault_result :: fault
  owner_flt :: ulong

text \<open>
  \<open>struct stable_node\<close>. The field \<open>head\<close> overlays the rb_node: a node linked in the
  stable tree reads as neither \<open>STABLE_NODE_DUP_HEAD\<close> nor \<open>&migrate_nodes\<close>. \<open>kpfn\<close> is
  in a union with \<open>chain_prune_time\<close>. \<open>hlist\<close> holds rmap_items for a regular node or a
  dup, and dups for a chain.
\<close>

datatype node_head = IN_TREE | STABLE_NODE_DUP_HEAD | MIGRATE_NODES

record stable_node =
  head :: node_head
  hlist :: "nat list"
  kpfn :: ulong
  rmap_hlist_len :: int

definition STABLE_NODE_CHAIN :: int where
  "STABLE_NODE_CHAIN = - 1024"

text \<open>
  \<open>struct rmap_item\<close>. \<open>address\<close> carries the flags in its low bits; \<open>ri_head\<close> is the
  field \<open>head\<close> (the stable_node heading the hlist this item is on).
\<close>

record rmap_item =
  mm :: nat
  address :: ulong
  oldchecksum :: u32
  ri_head :: "nat option"

definition PAGE_SIZE :: ulong where
  "PAGE_SIZE = 4096"

definition PAGE_MASK :: ulong where
  "PAGE_MASK = NOT (PAGE_SIZE - 1)"

definition SEQNR_MASK :: ulong where
  "SEQNR_MASK = 0x0ff"

definition UNSTABLE_FLAG :: ulong where
  "UNSTABLE_FLAG = 0x100"

definition STABLE_FLAG :: ulong where
  "STABLE_FLAG = 0x200"


text \<open>
  \<open>struct mm_slot\<close>: the fields the scanner and the crawler use. \<open>rmap_list\<close> is the
  singly linked list of this slot's rmap_items, in list order.
\<close>

record mm_slot =
  slot_mm :: nat
  rmap_list :: "nat list"
  state :: "16 word"
  merge_idx :: nat
  nr_merged_win :: "int list"
  nr_merged :: int
  fault_cnt :: ulong
  nr_scans :: int
  elapsed :: ulong

definition KSM_MM_FROZEN :: "16 word" where
  "KSM_MM_FROZEN = 0x01"

definition KSM_MM_LISTED :: "16 word" where
  "KSM_MM_LISTED = 0x02"

definition KSM_MM_NEWCOMER :: "16 word" where
  "KSM_MM_NEWCOMER = 0x04"

definition KSM_MM_SCANNED :: "16 word" where
  "KSM_MM_SCANNED = 0x08"

definition MERGE_WIN :: nat where
  "MERGE_WIN = 3"

datatype lksm_scan_mode = LKSM_SCAN_NONE | LKSM_SCAN_PARTIAL | LKSM_SCAN_FULL

text \<open>
  The global variables of the file, the slab caches and the memory manager's state. A slab
  cache is the list of its live objects and a counter from which fresh pointers are drawn.
  \<open>warned\<close> records that the \<open>WARN_ON_ONCE\<close> of \<open>stable_tree_append\<close> has fired.
\<close>

record ksm =
  nodes :: "nat \<Rightarrow> stable_node"
  stable_node_cache :: "nat list"
  nr_stable_node :: nat
  slab_left :: nat
  items :: "nat \<Rightarrow> rmap_item"
  rmap_item_cache :: "nat list"
  nr_rmap_item :: nat
  root_stable_tree :: "nat tree"
  root_unstable_tree :: "nat tree"
  migrate_nodes :: "nat list"
  pages :: "ulong \<Rightarrow> page"
  nr_pages :: ulong
  zero_pfn :: ulong
  mms :: "nat \<Rightarrow> mm_struct"
  slots :: "nat \<Rightarrow> mm_slot"
  mm_list :: "nat list"
  scan_list :: "nat list"
  remove_mm_list :: "nat list"
  vips_list :: "nat tree"
  lksm_max_vips :: int
  scan_mm_slot :: "nat option"
  scan_address :: ulong
  scan_rmap_list :: nat
  nr_scannable :: int
  nr_frozen :: int
  scan_mode :: lksm_scan_mode
  nr_full_scan :: ulong
  lksm_nr_scanned_slot :: int
  ksm_pages_shared :: ulong
  ksm_pages_sharing :: ulong
  ksm_pages_unshared :: ulong
  ksm_rmap_items :: ulong
  ksm_stable_node_chains :: ulong
  ksm_stable_node_dups :: ulong
  ksm_max_page_sharing :: int
  prune_jiffies :: ulong
  jiffies :: ulong
  ksm_use_zero_pages :: bool
  zero_checksum :: u32
  xxhash :: "8 word list \<Rightarrow> u32"
  stack_garbage :: u32
  initial_round :: int
  scan_round :: ulong
  ksm_crawl_round :: ulong
  lksm_nr_merged :: int
  lksm_nr_broken :: int
  lksm_slot_nr_merged :: int
  lksm_slot_nr_broken :: int
  ksm_run :: ulong
  warned :: bool

section \<open>The rbtree operations used by the file\<close>

text \<open>
  Modelled from the contract of linux/rbtree.h, which is not part of this file:
  \<open>rb_replace_node\<close> puts the new node at the victim's position, \<open>rb_erase\<close> unlinks a
  node and keeps the in-order sequence of the others.
\<close>

fun rb_replace_node :: "nat \<Rightarrow> nat \<Rightarrow> nat tree \<Rightarrow> nat tree" where
  "rb_replace_node victim new Leaf = Leaf"
| "rb_replace_node victim new (Node l a r) =
     Node (rb_replace_node victim new l) (if a = victim then new else a)
       (rb_replace_node victim new r)"

fun rb_join :: "nat tree \<Rightarrow> nat tree \<Rightarrow> nat tree" where
  "rb_join Leaf r = r"
| "rb_join (Node l a m) r = Node l a (rb_join m r)"

fun rb_erase :: "nat \<Rightarrow> nat tree \<Rightarrow> nat tree" where
  "rb_erase x Leaf = Leaf"
| "rb_erase x (Node l a r) =
     (if a = x then rb_join l r else Node (rb_erase x l) a (rb_erase x r))"

section \<open>Stable nodes, chains and dups\<close>

definition is_stable_node_chain :: "stable_node \<Rightarrow> bool" where
  "is_stable_node_chain chain \<longleftrightarrow> rmap_hlist_len chain = STABLE_NODE_CHAIN"

definition is_stable_node_dup :: "stable_node \<Rightarrow> bool" where
  "is_stable_node_dup dup \<longleftrightarrow> head dup = STABLE_NODE_DUP_HEAD"

text \<open>\<open>hlist_del(&dup->hlist_dup)\<close>: the dup leaves the hlist of the chain it is on.\<close>

definition hlist_del_dup :: "nat \<Rightarrow> (nat \<Rightarrow> stable_node) \<Rightarrow> (nat \<Rightarrow> stable_node)" where
  "hlist_del_dup dup ns =
     (\<lambda>n. if is_stable_node_chain (ns n) then (ns n)\<lparr>hlist := remove1 dup (hlist (ns n))\<rparr>
          else ns n)"


definition u_stable_node_dup_del :: "nat \<Rightarrow> ksm \<Rightarrow> ksm" where
  "u_stable_node_dup_del dup s =
     s\<lparr>nodes := hlist_del_dup dup (nodes s),
       ksm_stable_node_dups := ksm_stable_node_dups s - 1\<rparr>"

definition stable_node_dup_del :: "nat \<Rightarrow> ksm \<Rightarrow> ksm" where
  "stable_node_dup_del dup s =
     (if is_stable_node_dup (nodes s dup) then u_stable_node_dup_del dup s
      else s\<lparr>root_stable_tree := rb_erase dup (root_stable_tree s)\<rparr>)"

definition free_stable_node :: "nat \<Rightarrow> ksm \<Rightarrow> ksm" where
  "free_stable_node n s = s\<lparr>stable_node_cache := remove1 n (stable_node_cache s)\<rparr>"

text \<open>
  The loop of \<open>remove_node_from_stable_tree\<close> over the node's hlist:
  \<open>rmap_item->hlist.next\<close> is non-NULL exactly when items follow in the list.
\<close>

fun remove_node_items :: "nat \<Rightarrow> nat list \<Rightarrow> ksm \<Rightarrow> ksm" where
  "remove_node_items n [] s = s"
| "remove_node_items n (r # rs) s =
     (let s1 = (if rs \<noteq> []
                then s\<lparr>ksm_pages_sharing := ksm_pages_sharing s - 1,
                       lksm_slot_nr_broken := lksm_slot_nr_broken s + 1,
                       lksm_nr_broken := lksm_nr_broken s + 1\<rparr>
                else s\<lparr>ksm_pages_shared := ksm_pages_shared s - 1\<rparr>);
          s2 = s1\<lparr>nodes := (nodes s1)
                  (n := (nodes s1 n)\<lparr>rmap_hlist_len := rmap_hlist_len (nodes s1 n) - 1\<rparr>)\<rparr>;
          s3 = s2\<lparr>items := (items s2)
                  (r := (items s2 r)\<lparr>address := address (items s2 r) AND PAGE_MASK\<rparr>)\<rparr>
      in remove_node_items n rs s3)"

definition remove_node_from_stable_tree :: "nat \<Rightarrow> ksm \<Rightarrow> error + ksm" where
  "remove_node_from_stable_tree stable_node s =
     (if rmap_hlist_len (nodes s stable_node) < 0 then Inl BUG
      else
        let s1 = remove_node_items stable_node (hlist (nodes s stable_node)) s;
            s2 = (if head (nodes s1 stable_node) = MIGRATE_NODES
                  then s1\<lparr>migrate_nodes := remove1 stable_node (migrate_nodes s1)\<rparr>
                  else stable_node_dup_del stable_node s1)
        in Inr (free_stable_node stable_node s2))"

datatype get_ksm_page_flags = GET_KSM_PAGE_NOLOCK | GET_KSM_PAGE_LOCK | GET_KSM_PAGE_TRYLOCK

text \<open>
  \<open>get_ksm_page\<close>. The keyhole test compares \<open>page->mapping\<close> with the node's address
  tagged as KSM. A page whose reference count is zero is stale unless it is in the swap
  cache, where the source spins until the count is released: with no other task running
  that is \<open>HANG\<close>. \<open>lock_page\<close> waits for the lock and is not modelled; \<open>trylock_page\<close>
  fails when another task holds it.
\<close>

definition get_ksm_page :: "nat \<Rightarrow> get_ksm_page_flags \<Rightarrow> ksm \<Rightarrow> error + (page_ptr \<times> ksm)" where
  "get_ksm_page stable_node flags s =
     (let pfn = kpfn (nodes s stable_node);
          pg = pages s pfn;
          stale = (case remove_node_from_stable_tree stable_node s of
                     Inl e \<Rightarrow> Inl e | Inr s' \<Rightarrow> Inr (NULL_PAGE, s'))
      in if mapping pg \<noteq> MAPPING_KSM (Some stable_node) then stale
         else if count_zero pg then (if \<not> swapcache pg then stale else Inl HANG)
         else if flags = GET_KSM_PAGE_TRYLOCK \<and> locked pg then Inr (ERR_PTR_EBUSY, s)
         else Inr (PAGE pfn, s))"

definition u_is_page_sharing_candidate :: "ksm \<Rightarrow> stable_node \<Rightarrow> int \<Rightarrow> bool" where
  "u_is_page_sharing_candidate s stable_node offset \<longleftrightarrow>
     rmap_hlist_len stable_node \<noteq> 0 \<and>
     rmap_hlist_len stable_node + offset < ksm_max_page_sharing s"

definition is_page_sharing_candidate :: "ksm \<Rightarrow> stable_node \<Rightarrow> bool" where
  "is_page_sharing_candidate s stable_node = u_is_page_sharing_candidate s stable_node 0"

definition time_before :: "ulong \<Rightarrow> ulong \<Rightarrow> bool" where
  "time_before a b \<longleftrightarrow> sint (a - b) < 0"

text \<open>
  The walk of \<open>stable_node_dup\<close> over the chain's hlist. The accumulator is
  \<open>(found, found_rmap_hlist_len, tree_page, nr)\<close>; the list is the hlist as it was when
  the walk began, which is what \<open>hlist_for_each_entry_safe\<close> visits when the only entry
  unlinked on the way is the current one.
\<close>

type_synonym dup_acc = "nat option \<times> int \<times> page_ptr \<times> int"

fun stable_node_dup_walk ::
  "bool \<Rightarrow> nat list \<Rightarrow> dup_acc \<Rightarrow> ksm \<Rightarrow> error + (dup_acc \<times> ksm)" where
  "stable_node_dup_walk prune [] acc s = Inr (acc, s)"
| "stable_node_dup_walk prune (dup # rest) (found, found_len, tree_page, nr) s =
     (case get_ksm_page dup GET_KSM_PAGE_NOLOCK s of
        Inl e \<Rightarrow> Inl e
      | Inr (NULL_PAGE, s') \<Rightarrow> stable_node_dup_walk prune rest (found, found_len, tree_page, nr) s'
      | Inr (pg, s') \<Rightarrow>
          if is_page_sharing_candidate s' (nodes s' dup) \<and>
             (found = None \<or> rmap_hlist_len (nodes s' dup) > found_len)
          then
            (if \<not> prune
             then Inr ((Some dup, rmap_hlist_len (nodes s' dup), pg, nr + 1), s')
             else stable_node_dup_walk prune rest
                    (Some dup, rmap_hlist_len (nodes s' dup), pg, nr + 1) s')
          else stable_node_dup_walk prune rest (found, found_len, tree_page, nr + 1) s')"

text \<open>
  \<open>stable_node_dup\<close>: returns \<open>(*_stable_node_dup, *_stable_node, tree_page)\<close>. When the
  chain is collapsed, \<open>rb_replace_node\<close> writes the rb_node of the dup, which overlays its
  \<open>head\<close>: the dup stops reading as a dup. \<open>BUG_ON(stable_node->hlist.first->next)\<close>
  fires when a second entry follows the first; on an empty hlist the source dereferences
  NULL, which is \<open>BUG\<close> here as well.
\<close>

definition stable_node_dup ::
  "nat \<Rightarrow> bool \<Rightarrow> ksm \<Rightarrow> error + ((nat option \<times> nat \<times> page_ptr) \<times> ksm)" where
  "stable_node_dup stable_node prune_stale_stable_nodes s =
     (let chain = nodes s stable_node;
          prune = \<not> (\<not> prune_stale_stable_nodes \<or>
                     time_before (jiffies s) (kpfn chain + prune_jiffies s));
          s0 = (if prune then s\<lparr>nodes := (nodes s)(stable_node := chain\<lparr>kpfn := jiffies s\<rparr>)\<rparr>
                else s)
      in case stable_node_dup_walk prune (hlist chain) (None, 0, NULL_PAGE, 0) s0 of
           Inl e \<Rightarrow> Inl e
         | Inr ((None, found_len, tree_page, nr), s1) \<Rightarrow>
             Inr ((None, stable_node, tree_page), s1)
         | Inr ((Some found, found_len, tree_page, nr), s1) \<Rightarrow>
             if prune \<and> nr = 1 then
               (case hlist (nodes s1 stable_node) of
                  [first] \<Rightarrow>
                    let s2 = s1\<lparr>root_stable_tree :=
                                   rb_replace_node stable_node found (root_stable_tree s1),
                                nodes := (nodes s1)(found := (nodes s1 found)\<lparr>head := IN_TREE\<rparr>)\<rparr>;
                        s3 = free_stable_node stable_node s2
                    in Inr ((Some found, found, tree_page),
                            s3\<lparr>ksm_stable_node_chains := ksm_stable_node_chains s3 - 1,
                               ksm_stable_node_dups := ksm_stable_node_dups s3 - 1\<rparr>)
                | _ \<Rightarrow> Inl BUG)
             else if (case hlist (nodes s1 stable_node) of [] \<Rightarrow> True
                      | first # _ \<Rightarrow> first \<noteq> found) \<and>
                     u_is_page_sharing_candidate s1 (nodes s1 found) 1 then
               Inr ((Some found, stable_node, tree_page),
                    s1\<lparr>nodes := (nodes s1)(stable_node := (nodes s1 stable_node)
                          \<lparr>hlist := found # remove1 found (hlist (nodes s1 stable_node))\<rparr>)\<rparr>)
             else Inr ((Some found, stable_node, tree_page), s1))"

text \<open>\<open>__stable_node_chain\<close>, \<open>chain_prune\<close> and \<open>chain\<close>.\<close>

definition u_stable_node_chain ::
  "nat \<Rightarrow> bool \<Rightarrow> ksm \<Rightarrow> error + ((nat option \<times> nat \<times> page_ptr) \<times> ksm)" where
  "u_stable_node_chain stable_node prune_stale_stable_nodes s =
     (if \<not> is_stable_node_chain (nodes s stable_node) then
        (if is_page_sharing_candidate s (nodes s stable_node) then
           (case get_ksm_page stable_node GET_KSM_PAGE_NOLOCK s of
              Inl e \<Rightarrow> Inl e
            | Inr (pg, s') \<Rightarrow> Inr ((Some stable_node, stable_node, pg), s'))
         else Inr ((None, stable_node, NULL_PAGE), s))
      else stable_node_dup stable_node prune_stale_stable_nodes s)"

definition chain_prune ::
  "nat \<Rightarrow> ksm \<Rightarrow> error + ((nat option \<times> nat \<times> page_ptr) \<times> ksm)" where
  "chain_prune s_n s = u_stable_node_chain s_n True s"

definition chain ::
  "nat \<Rightarrow> ksm \<Rightarrow> error + ((nat option \<times> nat \<times> page_ptr) \<times> ksm)" where
  "chain s_n s = u_stable_node_chain s_n False s"

section \<open>Attaching and detaching rmap_items\<close>

text \<open>
  \<open>stable_tree_append\<close>. After \<open>hlist_add_head\<close> the new item has a successor exactly
  when the hlist was not empty before.
\<close>

definition stable_tree_append :: "nat \<Rightarrow> nat \<Rightarrow> bool \<Rightarrow> ksm \<Rightarrow> error + ksm" where
  "stable_tree_append rmap_item stable_node max_page_sharing_bypass s =
     (if rmap_hlist_len (nodes s stable_node) < 0 then Inl BUG
      else
        let n = nodes s stable_node;
            len = rmap_hlist_len n + 1;
            s1 = s\<lparr>nodes := (nodes s)(stable_node := n\<lparr>rmap_hlist_len := len\<rparr>),
                   warned := (warned s \<or>
                     (\<not> max_page_sharing_bypass \<and> len > ksm_max_page_sharing s))\<rparr>;
            s2 = s1\<lparr>items := (items s1)(rmap_item := (items s1 rmap_item)
                      \<lparr>ri_head := Some stable_node,
                       address := address (items s1 rmap_item) OR STABLE_FLAG\<rparr>),
                    nodes := (nodes s1)(stable_node := (nodes s1 stable_node)
                      \<lparr>hlist := rmap_item # hlist (nodes s1 stable_node)\<rparr>)\<rparr>
        in Inr (if hlist n \<noteq> []
                then s2\<lparr>ksm_pages_sharing := ksm_pages_sharing s2 + 1,
                        lksm_slot_nr_merged := lksm_slot_nr_merged s2 + 1,
                        lksm_nr_merged := lksm_nr_merged s2 + 1\<rparr>
                else s2\<lparr>ksm_pages_shared := ksm_pages_shared s2 + 1\<rparr>))"

text \<open>
  \<open>remove_rmap_item_from_tree\<close>. \<open>ri_head\<close> is \<open>None\<close> when the item is not listed from
  a stable node; following it there is a wild dereference, modelled as \<open>BUG\<close>. \<open>age\<close> is
  the difference of the scan round and the sequence number kept in the low bits of the
  address, cut to an \<open>unsigned char\<close>. \<open>RB_CLEAR_NODE\<close> only marks the item's own rb_node
  and has no counterpart here.
\<close>

definition remove_rmap_item_from_tree :: "nat \<Rightarrow> ksm \<Rightarrow> error + ksm" where
  "remove_rmap_item_from_tree rmap_item s =
     (if address (items s rmap_item) AND STABLE_FLAG \<noteq> 0 then
        (case ri_head (items s rmap_item) of
           None \<Rightarrow> Inl BUG
         | Some stable_node \<Rightarrow>
             (case get_ksm_page stable_node GET_KSM_PAGE_LOCK s of
                Inl e \<Rightarrow> Inl e
              | Inr (NULL_PAGE, s') \<Rightarrow> Inr s'
              | Inr (pg, s') \<Rightarrow>
                  let n = nodes s' stable_node;
                      hl = remove1 rmap_item (hlist n);
                      s1 = (if hl \<noteq> []
                            then s'\<lparr>ksm_pages_sharing := ksm_pages_sharing s' - 1,
                                    lksm_slot_nr_broken := lksm_slot_nr_broken s' + 1,
                                    lksm_nr_broken := lksm_nr_broken s' + 1\<rparr>
                            else s'\<lparr>ksm_pages_shared := ksm_pages_shared s' - 1\<rparr>)
                  in Inr (s1\<lparr>nodes := (nodes s1)(stable_node :=
                               n\<lparr>hlist := hl, rmap_hlist_len := rmap_hlist_len n - 1\<rparr>),
                             items := (items s1)(rmap_item := (items s1 rmap_item)
                               \<lparr>ri_head := None,
                                address := address (items s1 rmap_item) AND PAGE_MASK\<rparr>)\<rparr>)))
      else if address (items s rmap_item) AND UNSTABLE_FLAG \<noteq> 0 then
        (let age = (ucast (scan_round s - address (items s rmap_item)) :: 8 word);
             s1 = (if age = 0
                   then s\<lparr>root_unstable_tree := rb_erase rmap_item (root_unstable_tree s)\<rparr>
                   else s)
         in Inr (s1\<lparr>ksm_pages_unshared := ksm_pages_unshared s1 - 1,
                    items := (items s1)(rmap_item := (items s1 rmap_item)
                      \<lparr>address := address (items s1 rmap_item) AND PAGE_MASK\<rparr>)\<rparr>))
      else Inr s)"

text \<open>\<open>remove_trailing_rmap_items\<close>: the list is emptied item by item; the items are freed.\<close>

fun remove_trailing_rmap_items :: "nat list \<Rightarrow> ksm \<Rightarrow> error + ksm" where
  "remove_trailing_rmap_items [] s = Inr s"
| "remove_trailing_rmap_items (rmap_item # rest) s =
     (case remove_rmap_item_from_tree rmap_item s of
        Inl e \<Rightarrow> Inl e
      | Inr s' \<Rightarrow> remove_trailing_rmap_items rest s')"

section \<open>The memory manager's primitives\<close>



definition EBUSY :: int where
  "EBUSY = 16"

definition EINVAL :: int where
  "EINVAL = 22"

definition ERESTARTSYS :: int where
  "ERESTARTSYS = 512"

fun memcmp :: "8 word list \<Rightarrow> 8 word list \<Rightarrow> int" where
  "memcmp [] [] = 0"
| "memcmp [] (b # bs) = - 1"
| "memcmp (a # as) [] = 1"
| "memcmp (a # as) (b # bs) = (if a < b then - 1 else if b < a then 1 else memcmp as bs)"

definition memcmp_pages :: "ksm \<Rightarrow> ulong \<Rightarrow> ulong \<Rightarrow> int" where
  "memcmp_pages s page1 page2 = memcmp (content (pages s page1)) (content (pages s page2))"


definition PageAnon :: "page \<Rightarrow> bool" where
  "PageAnon pg \<longleftrightarrow> mapping pg \<noteq> MAPPING_NULL"



definition ksm_test_exit :: "mm_struct \<Rightarrow> bool" where
  "ksm_test_exit m \<longleftrightarrow> mm_users m = 0"

definition vm_end :: "vm_area_struct \<Rightarrow> ulong" where
  "vm_end vma = vm_start vma + of_nat (vm_pages vma) * PAGE_SIZE"

fun find_vma :: "vm_area_struct list \<Rightarrow> ulong \<Rightarrow> vm_area_struct option" where
  "find_vma [] addr = None"
| "find_vma (vma # rest) addr = (if addr < vm_end vma then Some vma else find_vma rest addr)"

definition vma_lookup :: "mm_struct \<Rightarrow> ulong \<Rightarrow> vm_area_struct option" where
  "vma_lookup m addr =
     (case find_vma (mmap m) addr of
        None \<Rightarrow> None
      | Some vma \<Rightarrow> if addr < vm_start vma then None else Some vma)"

definition find_mergeable_vma :: "ksm \<Rightarrow> nat \<Rightarrow> ulong \<Rightarrow> vm_area_struct option" where
  "find_mergeable_vma s m addr =
     (if ksm_test_exit (mms s m) then None
      else case vma_lookup (mms s m) addr of
             None \<Rightarrow> None
           | Some vma \<Rightarrow> if \<not> vm_mergeable vma \<or> \<not> vm_anon_vma vma then None else Some vma)"

definition follow_page :: "ksm \<Rightarrow> nat \<Rightarrow> ulong \<Rightarrow> ulong option" where
  "follow_page s m addr = map_option pte_pfn (ptes (mms s m) (addr AND PAGE_MASK))"






definition get_mergeable_page :: "ksm \<Rightarrow> nat \<Rightarrow> ulong option" where
  "get_mergeable_page s rmap_item =
     (let it = items s rmap_item in
      case find_mergeable_vma s (mm it) (address it) of
        None \<Rightarrow> None
      | Some vma \<Rightarrow>
          (case follow_page s (mm it) (address it) of
             None \<Rightarrow> None
           | Some page \<Rightarrow> if PageAnon (pages s page) then Some page else None))"

section \<open>Merging pages\<close>






section \<open>The unstable tree\<close>

text \<open>
  A walk records the turns it takes; \<open>rb_link_node\<close> hangs the new node at the leaf the
  path ends in (\<open>rb_insert_color\<close> then rebalances, which is not modelled).
\<close>

datatype dir = RB_LEFT | RB_RIGHT

fun rb_link_node :: "nat \<Rightarrow> dir list \<Rightarrow> nat tree \<Rightarrow> nat tree" where
  "rb_link_node x [] Leaf = Node Leaf x Leaf"
| "rb_link_node x (RB_LEFT # p) (Node l a r) = Node (rb_link_node x p l) a r"
| "rb_link_node x (RB_RIGHT # p) (Node l a r) = Node l a (rb_link_node x p r)"
| "rb_link_node x p t = t"

datatype unstable_walk = U_NULL | U_MATCH nat ulong | U_LEAF "dir list"

fun unstable_tree_walk :: "ksm \<Rightarrow> ulong \<Rightarrow> nat tree \<Rightarrow> dir list \<Rightarrow> unstable_walk" where
  "unstable_tree_walk s page Leaf path = U_LEAF path"
| "unstable_tree_walk s page (Node l tree_rmap_item r) path =
     (case get_mergeable_page s tree_rmap_item of
        None \<Rightarrow> U_NULL
      | Some tree_page \<Rightarrow>
          if page = tree_page then U_NULL
          else
            let ret = memcmp_pages s page tree_page in
            if ret < 0 then unstable_tree_walk s page l (path @ [RB_LEFT])
            else if ret > 0 then unstable_tree_walk s page r (path @ [RB_RIGHT])
            else U_MATCH tree_rmap_item tree_page)"

definition unstable_tree_search_insert ::
  "nat \<Rightarrow> ulong \<Rightarrow> ksm \<Rightarrow> (nat \<times> ulong) option \<times> ksm" where
  "unstable_tree_search_insert rmap_item page s =
     (case unstable_tree_walk s page (root_unstable_tree s) [] of
        U_NULL \<Rightarrow> (None, s)
      | U_MATCH tree_rmap_item tree_page \<Rightarrow> (Some (tree_rmap_item, tree_page), s)
      | U_LEAF path \<Rightarrow>
          (None,
           s\<lparr>items := (items s)(rmap_item := (items s rmap_item)
                 \<lparr>address := (address (items s rmap_item) OR UNSTABLE_FLAG)
                               OR (scan_round s AND SEQNR_MASK)\<rparr>),
             root_unstable_tree := rb_link_node rmap_item path (root_unstable_tree s),
             ksm_pages_unshared := ksm_pages_unshared s + 1\<rparr>))"

section \<open>Searching and growing the stable tree\<close>










section \<open>The matching engine\<close>





section \<open>Initial state and example states\<close>

text \<open>
  \<open>ksm_init\<close> holds the static initialisers of the file (\<open>prune_jiffies\<close> is
  \<open>msecs_to_jiffies(2000)\<close> at HZ = 1000). The example states are the concrete inputs at
  which the theorems below are instantiated.
\<close>

definition page_init :: page where
  "page_init = \<lparr>mapping = MAPPING_NULL, content = [], count_zero = True, swapcache = False,
     locked = False, pinned = False, mapcount = 0\<rparr>"

definition stable_node_init :: stable_node where
  "stable_node_init = \<lparr>head = IN_TREE, hlist = [], kpfn = 0, rmap_hlist_len = 0\<rparr>"

definition rmap_item_init :: rmap_item where
  "rmap_item_init = \<lparr>mm = 0, address = 0, oldchecksum = 0, ri_head = None\<rparr>"

definition mm_init :: mm_struct where
  "mm_init = \<lparr>mm_users = 0, mmap = [], ptes = (\<lambda>_. None),
     fault_result = VM_FAULT_WRITE, owner_flt = 0\<rparr>"

definition mm_slot_init :: mm_slot where
  "mm_slot_init = \<lparr>slot_mm = 0, rmap_list = [], state = 0, merge_idx = 0,
     nr_merged_win = [0, 0, 0], nr_merged = 0, fault_cnt = 0, nr_scans = 0, elapsed = 0\<rparr>"

definition ksm_init :: ksm where
  "ksm_init = \<lparr>nodes = (\<lambda>_. stable_node_init), stable_node_cache = [], nr_stable_node = 0,
     slab_left = 1000, items = (\<lambda>_. rmap_item_init), rmap_item_cache = [],
     nr_rmap_item = 0, root_stable_tree = Leaf,
     root_unstable_tree = Leaf, migrate_nodes = [], pages = (\<lambda>_. page_init), nr_pages = 0,
     zero_pfn = 0, mms = (\<lambda>_. mm_init), slots = (\<lambda>_. mm_slot_init), mm_list = [],
     scan_list = [], remove_mm_list = [], vips_list = Leaf, lksm_max_vips = 20,
     scan_mm_slot = None, scan_address = 0, scan_rmap_list = 0, nr_scannable = 0,
     nr_frozen = 0, scan_mode = LKSM_SCAN_NONE, nr_full_scan = 0, lksm_nr_scanned_slot = 0, ksm_pages_shared = 0, ksm_pages_sharing = 0,
     ksm_pages_unshared = 0, ksm_rmap_items = 0, ksm_stable_node_chains = 0, ksm_stable_node_dups = 0,
     ksm_max_page_sharing = 256, prune_jiffies = 2000, jiffies = 0,
     ksm_use_zero_pages = False, zero_checksum = 0, xxhash = (\<lambda>_. 0), stack_garbage = 0,
     initial_round = 3, scan_round = 0, ksm_crawl_round = 0, lksm_nr_merged = 0,
     lksm_nr_broken = 0, lksm_slot_nr_merged = 0, lksm_slot_nr_broken = 0, ksm_run = 0,
     warned = False\<rparr>"

definition ksm_page :: "nat \<Rightarrow> page" where
  "ksm_page n = page_init\<lparr>mapping := MAPPING_KSM (Some n), count_zero := False, mapcount := 1\<rparr>"

definition mk_dup :: "ulong \<Rightarrow> nat list \<Rightarrow> stable_node" where
  "mk_dup pfn rs = \<lparr>head = STABLE_NODE_DUP_HEAD, hlist = rs, kpfn = pfn,
     rmap_hlist_len = int (length rs)\<rparr>"

text \<open>
  A chain (node 0) with three dups in walk order 2, 1, 3: dup 2 has five rmap_items, dup 1
  three, and the page of dup 3 has been freed.
\<close>

definition chain_example :: ksm where
  "chain_example = ksm_init\<lparr>
     nodes := (\<lambda>_. stable_node_init)
       (0 := \<lparr>head = IN_TREE, hlist = [2, 1, 3], kpfn = 0, rmap_hlist_len = STABLE_NODE_CHAIN\<rparr>,
        1 := mk_dup 11 [10, 11, 12],
        2 := mk_dup 12 [20, 21, 22, 23, 24],
        3 := mk_dup 13 [30]),
     stable_node_cache := [0, 1, 2, 3],
     root_stable_tree := Node Leaf 0 Leaf,
     pages := (\<lambda>_. page_init)(11 := ksm_page 1, 12 := ksm_page 2),
     ksm_pages_shared := 3, ksm_pages_sharing := 6,
     ksm_stable_node_chains := 1, ksm_stable_node_dups := 3,
     jiffies := 5000\<rparr>"


text \<open>
  One KSM page, shared by the rmap_items 1 and 2; rmap_item 3 is not in any tree.
\<close>

definition share_example :: ksm where
  "share_example = ksm_init\<lparr>
     nodes := (\<lambda>_. stable_node_init)
       (0 := \<lparr>head = IN_TREE, hlist = [2, 1], kpfn = 11, rmap_hlist_len = 2\<rparr>),
     stable_node_cache := [0], nr_stable_node := 1,
     root_stable_tree := Node Leaf 0 Leaf,
     pages := (\<lambda>_. page_init)(11 := (ksm_page 0)\<lparr>content := [65, 65, 65, 65], mapcount := 2\<rparr>),
     nr_pages := 12,
     items := (\<lambda>_. rmap_item_init)
       (1 := \<lparr>mm = 1, address = 0x1200, oldchecksum = 10, ri_head = Some 0\<rparr>,
        2 := \<lparr>mm = 2, address = 0x1200, oldchecksum = 10, ri_head = Some 0\<rparr>,
        3 := \<lparr>mm = 3, address = 0x1000, oldchecksum = 0, ri_head = None\<rparr>),
     rmap_item_cache := [1, 2, 3], nr_rmap_item := 4,
     ksm_pages_shared := 1, ksm_pages_sharing := 1\<rparr>"

text \<open>
  Two mms with one mergeable page each at address 0x1000, both pages holding the bytes
  "AAAA", and one rmap_item for each; \<open>byte_sum\<close> stands in for \<open>xxhash\<close>.
\<close>

definition byte_sum :: "8 word list \<Rightarrow> u32" where
  "byte_sum bs = of_nat (sum_list (map unat bs))"

definition anon_page :: "8 word list \<Rightarrow> page" where
  "anon_page bs = \<lparr>mapping = MAPPING_ANON, content = bs, count_zero = False, swapcache = False,
     locked = False, pinned = False, mapcount = 1\<rparr>"

definition one_page_mm :: "ulong \<Rightarrow> mm_struct" where
  "one_page_mm pfn = \<lparr>mm_users = 1,
     mmap = [\<lparr>vm_start = 0x1000, vm_pages = 1, vm_mergeable = True, vm_anon_vma = True\<rparr>],
     ptes = (\<lambda>_. None)(0x1000 \<mapsto> \<lparr>pte_pfn = pfn, pte_write = True\<rparr>),
     fault_result = VM_FAULT_WRITE, owner_flt = 0\<rparr>"

definition two_owners :: ksm where
  "two_owners = ksm_init\<lparr>
     mms := (\<lambda>_. mm_init)(1 := one_page_mm 1, 2 := one_page_mm 2),
     pages := (\<lambda>_. page_init)(1 := anon_page [65, 65, 65, 65], 2 := anon_page [65, 65, 65, 65]),
     nr_pages := 3,
     items := (\<lambda>_. rmap_item_init)
       (1 := \<lparr>mm = 1, address = 0x1000, oldchecksum = 0, ri_head = None\<rparr>,
        2 := \<lparr>mm = 2, address = 0x1000, oldchecksum = 0, ri_head = None\<rparr>),
     rmap_item_cache := [1, 2], nr_rmap_item := 3,
     xxhash := byte_sum,
     scan_round := 1, ksm_crawl_round := 1\<rparr>"

text \<open>
  The unstable tree holds rmap_item 1 (page 1, bytes "BBBB") with rmap_item 3 as its left
  child; the mm of rmap_item 3 has unmapped the page.
\<close>

definition vanished_example :: ksm where
  "vanished_example = two_owners\<lparr>
     mms := (mms two_owners)(3 := (one_page_mm 3)\<lparr>ptes := (\<lambda>_. None)\<rparr>),
     pages := (pages two_owners)(1 := anon_page [66, 66, 66, 66]),
     items := (items two_owners)
       (1 := \<lparr>mm = 1, address = 0x1101, oldchecksum = 264, ri_head = None\<rparr>,
        3 := \<lparr>mm = 3, address = 0x1101, oldchecksum = 4, ri_head = None\<rparr>),
     rmap_item_cache := [1, 2, 3], nr_rmap_item := 4,
     root_unstable_tree := Node (Node Leaf 3 Leaf) 1 Leaf,
     ksm_pages_unshared := 2\<rparr>"




section \<open>Specification predicates\<close>

text \<open>
  \<open>page_live\<close>: the keyhole test of \<open>get_ksm_page\<close> succeeds. \<open>page_frozen\<close>: the page
  still carries the key but its reference count is frozen at zero in the swap cache, where
  \<open>get_ksm_page\<close> spins. \<open>dup_ok\<close> and \<open>chain_ok\<close> describe a chain whose tagging is
  consistent. \<open>headroom\<close> is the remaining fan-out of a node.
\<close>

definition page_live :: "ksm \<Rightarrow> nat \<Rightarrow> bool" where
  "page_live s n \<longleftrightarrow>
     mapping (pages s (kpfn (nodes s n))) = MAPPING_KSM (Some n) \<and>
     \<not> count_zero (pages s (kpfn (nodes s n)))"

definition page_frozen :: "ksm \<Rightarrow> nat \<Rightarrow> bool" where
  "page_frozen s n \<longleftrightarrow>
     mapping (pages s (kpfn (nodes s n))) = MAPPING_KSM (Some n) \<and>
     count_zero (pages s (kpfn (nodes s n))) \<and> swapcache (pages s (kpfn (nodes s n)))"

definition dup_ok :: "ksm \<Rightarrow> nat \<Rightarrow> bool" where
  "dup_ok s d \<longleftrightarrow>
     is_stable_node_dup (nodes s d) \<and> 0 \<le> rmap_hlist_len (nodes s d) \<and> \<not> page_frozen s d"

definition dups_pruned :: "nat list \<Rightarrow> ksm \<Rightarrow> ksm \<Rightarrow> bool" where
  "dups_pruned removed s s' \<longleftrightarrow>
     pages s' = pages s \<and> ksm_max_page_sharing s' = ksm_max_page_sharing s \<and>
     root_stable_tree s' = root_stable_tree s \<and>
     ksm_stable_node_chains s' = ksm_stable_node_chains s \<and>
     ksm_stable_node_dups s' = ksm_stable_node_dups s - of_nat (length removed) \<and>
     stable_node_cache s' = fold remove1 removed (stable_node_cache s) \<and>
     (\<forall>m. m \<notin> set removed \<longrightarrow>
        nodes s' m = (if is_stable_node_chain (nodes s m)
                      then (nodes s m)\<lparr>hlist := fold remove1 removed (hlist (nodes s m))\<rparr>
                      else nodes s m))"

fun dup_select :: "bool \<Rightarrow> ksm \<Rightarrow> nat list \<Rightarrow> dup_acc \<Rightarrow> dup_acc" where
  "dup_select prune s [] acc = acc"
| "dup_select prune s (d # ds) (found, fl, tp, nr) =
     (if \<not> page_live s d then dup_select prune s ds (found, fl, tp, nr)
      else if is_page_sharing_candidate s (nodes s d) \<and>
              (found = None \<or> rmap_hlist_len (nodes s d) > fl)
      then (if \<not> prune
            then (Some d, rmap_hlist_len (nodes s d), PAGE (kpfn (nodes s d)), nr + 1)
            else dup_select prune s ds
                   (Some d, rmap_hlist_len (nodes s d), PAGE (kpfn (nodes s d)), nr + 1))
      else dup_select prune s ds (found, fl, tp, nr + 1))"

fun dup_removed :: "bool \<Rightarrow> ksm \<Rightarrow> nat list \<Rightarrow> dup_acc \<Rightarrow> nat list" where
  "dup_removed prune s [] acc = []"
| "dup_removed prune s (d # ds) (found, fl, tp, nr) =
     (if \<not> page_live s d then d # dup_removed prune s ds (found, fl, tp, nr)
      else if is_page_sharing_candidate s (nodes s d) \<and>
              (found = None \<or> rmap_hlist_len (nodes s d) > fl)
      then (if \<not> prune then []
            else dup_removed prune s ds
                   (Some d, rmap_hlist_len (nodes s d), PAGE (kpfn (nodes s d)), nr + 1))
      else dup_removed prune s ds (found, fl, tp, nr + 1))"

definition live_candidates :: "ksm \<Rightarrow> nat \<Rightarrow> nat list" where
  "live_candidates s c =
     filter (\<lambda>d. page_live s d \<and> is_page_sharing_candidate s (nodes s d)) (hlist (nodes s c))"

definition chain_ok :: "ksm \<Rightarrow> nat \<Rightarrow> bool" where
  "chain_ok s c \<longleftrightarrow>
     is_stable_node_chain (nodes s c) \<and> distinct (hlist (nodes s c)) \<and>
     (\<forall>d\<in>set (hlist (nodes s c)). dup_ok s d)"

definition prune_due :: "ksm \<Rightarrow> nat \<Rightarrow> bool" where
  "prune_due s c \<longleftrightarrow> \<not> time_before (jiffies s) (kpfn (nodes s c) + prune_jiffies s)"

definition prune_stamp :: "bool \<Rightarrow> nat \<Rightarrow> ksm \<Rightarrow> ksm" where
  "prune_stamp prune c s =
     (if prune then s\<lparr>nodes := (nodes s)(c := (nodes s c)\<lparr>kpfn := jiffies s\<rparr>)\<rparr> else s)"

definition headroom :: "ksm \<Rightarrow> nat \<Rightarrow> int" where
  "headroom s d = ksm_max_page_sharing s - rmap_hlist_len (nodes s d)"

text \<open>
  Modelled from the spec's words ("the duplicate with the largest remaining fan-out
  headroom among those with any headroom at all, tie-break first found"): the choice the
  specification describes, to be compared with the one \<open>stable_node_dup\<close> makes.
\<close>

fun largest_headroom_first :: "ksm \<Rightarrow> nat list \<Rightarrow> nat option \<Rightarrow> nat option" where
  "largest_headroom_first s [] best = best"
| "largest_headroom_first s (d # ds) best =
     (if page_live s d \<and> 0 < headroom s d \<and>
         (case best of None \<Rightarrow> True | Some b \<Rightarrow> headroom s b < headroom s d)
      then largest_headroom_first s ds (Some d)
      else largest_headroom_first s ds best)"

subsection \<open>The counters of the stable tree\<close>

text \<open>
  The nodes that carry rmap_items are the regular nodes and the dups: every allocated
  stable node that is not a chain head.  \<open>nr_shared\<close> counts those with a non-empty
  hlist, \<open>nr_attached\<close> adds up the lengths of their hlists.
\<close>

definition regular_nodes :: "ksm \<Rightarrow> nat list" where
  "regular_nodes s = filter (\<lambda>n. \<not> is_stable_node_chain (nodes s n)) (stable_node_cache s)"

definition nr_shared :: "ksm \<Rightarrow> nat" where
  "nr_shared s = length (filter (\<lambda>n. hlist (nodes s n) \<noteq> []) (regular_nodes s))"

definition nr_attached :: "ksm \<Rightarrow> nat" where
  "nr_attached s = sum_list (map (\<lambda>n. length (hlist (nodes s n))) (regular_nodes s))"

definition store_inv :: "ksm \<Rightarrow> bool" where
  "store_inv s \<longleftrightarrow>
     distinct (stable_node_cache s) \<and>
     (\<forall>n\<in>set (regular_nodes s). rmap_hlist_len (nodes s n) = int (length (hlist (nodes s n)))) \<and>
     (\<forall>r\<in>set (rmap_item_cache s). address (items s r) AND STABLE_FLAG \<noteq> 0 \<longrightarrow>
        (\<exists>n\<in>set (regular_nodes s). ri_head (items s r) = Some n \<and> r \<in> set (hlist (nodes s n)))) \<and>
     ksm_pages_shared s = of_nat (nr_shared s) \<and>
     ksm_pages_shared s + ksm_pages_sharing s = of_nat (nr_attached s)"


text \<open>
  The three operations of the file that change the hlist of a stable node.
\<close>

inductive store_step :: "ksm \<Rightarrow> ksm \<Rightarrow> bool" where
  attach: "n \<in> set (regular_nodes s) \<Longrightarrow> stable_tree_append r n b s = Inr s' \<Longrightarrow> store_step s s'"
| detach: "r \<in> set (rmap_item_cache s) \<Longrightarrow> remove_rmap_item_from_tree r s = Inr s' \<Longrightarrow>
     store_step s s'"
| evict: "n \<in> set (regular_nodes s) \<Longrightarrow> remove_node_from_stable_tree n s = Inr s' \<Longrightarrow>
     store_step s s'"

subsection \<open>The walk of the unstable tree\<close>

text \<open>
  The rmap_items whose page the walk of \<open>unstable_tree_search_insert\<close> asks for, in the
  order of the walk.
\<close>

fun unstable_tree_visited :: "ksm \<Rightarrow> ulong \<Rightarrow> nat tree \<Rightarrow> nat list" where
  "unstable_tree_visited s page Leaf = []"
| "unstable_tree_visited s page (Node l tree_rmap_item r) =
     tree_rmap_item #
     (case get_mergeable_page s tree_rmap_item of
        None \<Rightarrow> []
      | Some tree_page \<Rightarrow>
          if page = tree_page then []
          else if memcmp_pages s page tree_page < 0 then unstable_tree_visited s page l
          else if memcmp_pages s page tree_page > 0 then unstable_tree_visited s page r
          else [])"

subsection \<open>The fan-out of a stable node\<close>


inductive bounded_step :: "ksm \<Rightarrow> ksm \<Rightarrow> bool" where
  attach_below: "n \<in> set (regular_nodes s) \<Longrightarrow>
     rmap_hlist_len (nodes s n) < ksm_max_page_sharing s \<Longrightarrow>
     stable_tree_append r n b s = Inr s' \<Longrightarrow> bounded_step s s'"
| detach: "r \<in> set (rmap_item_cache s) \<Longrightarrow> remove_rmap_item_from_tree r s = Inr s' \<Longrightarrow>
     bounded_step s s'"
| evict: "n \<in> set (regular_nodes s) \<Longrightarrow> remove_node_from_stable_tree n s = Inr s' \<Longrightarrow>
     bounded_step s s'"

section \<open>The walk over a chain\<close>

lemma remove_node_items_fields [simp]:
  "pages (remove_node_items n rs s) = pages s"
  "ksm_max_page_sharing (remove_node_items n rs s) = ksm_max_page_sharing s"
  "root_stable_tree (remove_node_items n rs s) = root_stable_tree s"
  "ksm_stable_node_chains (remove_node_items n rs s) = ksm_stable_node_chains s"
  "ksm_stable_node_dups (remove_node_items n rs s) = ksm_stable_node_dups s"
  "stable_node_cache (remove_node_items n rs s) = stable_node_cache s"
  "migrate_nodes (remove_node_items n rs s) = migrate_nodes s"
  by (induction n rs s rule: remove_node_items.induct; simp add: Let_def)+

lemma remove_node_items_nodes:
  "nodes (remove_node_items n rs s) =
     (nodes s)(n := (nodes s n)\<lparr>rmap_hlist_len := rmap_hlist_len (nodes s n) - int (length rs)\<rparr>)"
  by (induction n rs s rule: remove_node_items.induct) (simp_all add: Let_def fun_eq_iff)

lemma get_ksm_page_live:
  "page_live s n \<Longrightarrow> get_ksm_page n GET_KSM_PAGE_NOLOCK s = Inr (PAGE (kpfn (nodes s n)), s)"
  by (simp add: get_ksm_page_def page_live_def Let_def)

lemma get_ksm_page_stale:
  assumes "dup_ok s n" "\<not> page_live s n"
  shows "\<exists>s'. get_ksm_page n fl s = Inr (NULL_PAGE, s') \<and> dups_pruned [n] s s'"
proof -
  from assms have len: "\<not> rmap_hlist_len (nodes s n) < 0"
    and dup: "head (nodes s n) = STABLE_NODE_DUP_HEAD"
    and nf: "\<not> page_frozen s n"
    by (auto simp: dup_ok_def is_stable_node_dup_def)
  define s' where "s' = free_stable_node n (u_stable_node_dup_del n
       (remove_node_items n (hlist (nodes s n)) s))"
  have rm: "remove_node_from_stable_tree n s = Inr s'"
    using len dup
    by (simp add: remove_node_from_stable_tree_def Let_def remove_node_items_nodes
        stable_node_dup_del_def is_stable_node_dup_def s'_def)
  have g: "get_ksm_page n fl s = Inr (NULL_PAGE, s')"
    using assms(2) nf rm
    by (auto simp: get_ksm_page_def Let_def page_live_def page_frozen_def)
  have "dups_pruned [n] s s'"
    unfolding dups_pruned_def s'_def
    by (simp add: free_stable_node_def u_stable_node_dup_del_def hlist_del_dup_def
        remove_node_items_nodes is_stable_node_chain_def)
  with g show ?thesis by blast
qed

lemma dups_pruned_refl: "dups_pruned [] s s"
  by (simp add: dups_pruned_def)

lemma dups_pruned_other:
  "dups_pruned rem s s' \<Longrightarrow> m \<notin> set rem \<Longrightarrow> \<not> is_stable_node_chain (nodes s m) \<Longrightarrow>
   nodes s' m = nodes s m"
  by (simp add: dups_pruned_def)

lemma dup_ok_not_chain: "dup_ok s d \<Longrightarrow> \<not> is_stable_node_chain (nodes s d)"
  by (simp add: dup_ok_def is_stable_node_chain_def STABLE_NODE_CHAIN_def)

lemma dups_pruned_trans:
  assumes "dups_pruned [d] s s1" "dups_pruned rem s1 s'"
  shows "dups_pruned (d # rem) s s'"
  using assms unfolding dups_pruned_def
  by (auto simp: is_stable_node_chain_def)

lemma dups_pruned_live:
  assumes "dups_pruned rem s s'" "m \<notin> set rem" "dup_ok s m"
  shows "page_live s' m = page_live s m" "dup_ok s' m"
    "is_page_sharing_candidate s' x = is_page_sharing_candidate s x"
    "nodes s' m = nodes s m"
proof -
  have n: "nodes s' m = nodes s m"
    using assms dups_pruned_other dup_ok_not_chain by blast
  have p: "pages s' = pages s" "ksm_max_page_sharing s' = ksm_max_page_sharing s"
    using assms(1) by (simp_all add: dups_pruned_def)
  show "nodes s' m = nodes s m" by (rule n)
  show "page_live s' m = page_live s m" by (simp add: page_live_def n p)
  show "dup_ok s' m" using assms(3) by (simp add: dup_ok_def page_frozen_def n p)
  show "is_page_sharing_candidate s' x = is_page_sharing_candidate s x"
    by (simp add: is_page_sharing_candidate_def u_is_page_sharing_candidate_def p)
qed

lemma dup_select_cong:
  assumes "dups_pruned rem s s'" "set ds \<inter> set rem = {}" "\<forall>d\<in>set ds. dup_ok s d"
  shows "dup_select prune s' ds acc = dup_select prune s ds acc \<and>
         dup_removed prune s' ds acc = dup_removed prune s ds acc"
  using assms(2,3)
proof (induction ds arbitrary: acc)
  case Nil
  show ?case by simp
next
  case (Cons d ds)
  obtain found fl tp nr where acc: "acc = (found, fl, tp, nr)" by (cases acc) auto
  have d: "d \<notin> set rem" "dup_ok s d" using Cons.prems by auto
  note eqs = dups_pruned_live [OF assms(1) d]
  have ih: "\<And>a. dup_select prune s' ds a = dup_select prune s ds a"
     "\<And>a. dup_removed prune s' ds a = dup_removed prune s ds a"
    using Cons.IH Cons.prems by auto
  show ?case using ih by (cases prune) (auto simp: acc eqs)
qed

lemma stable_node_dup_walk_select:
  assumes "distinct ds" "\<forall>d\<in>set ds. dup_ok s d"
  shows "\<exists>s'. stable_node_dup_walk prune ds acc s = Inr (dup_select prune s ds acc, s') \<and>
              dups_pruned (dup_removed prune s ds acc) s s'"
  using assms
proof (induction ds arbitrary: s acc)
  case Nil
  show ?case by (simp add: dups_pruned_refl)
next
  case (Cons d ds)
  obtain found fl tp nr where acc: "acc = (found, fl, tp, nr)" by (cases acc) auto
  have dok: "dup_ok s d" and dist: "distinct ds" and dn: "d \<notin> set ds"
    and rest: "\<forall>x\<in>set ds. dup_ok s x"
    using Cons.prems by auto
  show ?case
  proof (cases "page_live s d")
    case True
    note g = get_ksm_page_live [OF True]
    from Cons.IH [OF dist rest]
    have ih: "\<And>a. \<exists>s'. stable_node_dup_walk prune ds a s = Inr (dup_select prune s ds a, s') \<and>
              dups_pruned (dup_removed prune s ds a) s s'" by blast
    show ?thesis
      using ih True
      by (cases prune) (auto simp: acc g dups_pruned_refl)
  next
    case False
    from get_ksm_page_stale [OF dok False]
    obtain s1 where g: "get_ksm_page d GET_KSM_PAGE_NOLOCK s = Inr (NULL_PAGE, s1)"
      and fr: "dups_pruned [d] s s1" by blast
    have rest1: "\<forall>x\<in>set ds. dup_ok s1 x"
    proof
      fix x assume x: "x \<in> set ds"
      then have "x \<notin> set [d]" "dup_ok s x" using rest dn by auto
      then show "dup_ok s1 x" by (rule dups_pruned_live(2) [OF fr])
    qed
    from Cons.IH [OF dist rest1, of "(found, fl, tp, nr)"]
    obtain s' where w: "stable_node_dup_walk prune ds (found, fl, tp, nr) s1 =
          Inr (dup_select prune s1 ds (found, fl, tp, nr), s')"
      and fr': "dups_pruned (dup_removed prune s1 ds (found, fl, tp, nr)) s1 s'" by blast
    have c: "dup_select prune s1 ds (found, fl, tp, nr) = dup_select prune s ds (found, fl, tp, nr)"
       "dup_removed prune s1 ds (found, fl, tp, nr) = dup_removed prune s ds (found, fl, tp, nr)"
      using dup_select_cong [OF fr _ rest] dn by auto
    show ?thesis
      using w fr' dups_pruned_trans [OF fr] False
      by (auto simp: acc g c)
  qed
qed

lemma fold_remove1_distinct:
  "distinct xs \<Longrightarrow> fold remove1 rem xs = filter (\<lambda>x. x \<notin> set rem) xs"
proof (induction rem arbitrary: xs)
  case Nil
  then show ?case by simp
next
  case (Cons r rem)
  have "fold remove1 (r # rem) xs = fold remove1 rem (remove1 r xs)" by simp
  also have "\<dots> = filter (\<lambda>x. x \<notin> set rem) (remove1 r xs)"
    using Cons by simp
  also have "remove1 r xs = filter (\<lambda>x. x \<noteq> r) xs"
    using Cons.prems by (simp add: distinct_remove1_removeAll removeAll_filter_not_eq) metis
  finally show ?case by (simp add: conj_commute)
qed

lemma fold_remove1_stale:
  "distinct ds \<Longrightarrow> fold remove1 (filter (\<lambda>x. \<not> P x) ds) ds = filter P ds"
  by (auto simp: fold_remove1_distinct intro: filter_cong)

lemma dup_removed_prune:
  "dup_removed True s ds acc = filter (\<lambda>d. \<not> page_live s d) ds"
  by (induction ds arbitrary: acc) (auto split: prod.splits)

lemma dup_select_nr:
  "dup_select True s ds (found, fl, tp, nr) = (found', fl', tp', nr') \<Longrightarrow>
   nr' = nr + int (length (filter (page_live s) ds))"
proof (induction ds arbitrary: found fl tp nr)
  case Nil
  then show ?case by simp
next
  case (Cons a ds)
  show ?case
    using Cons.prems Cons.IH [of found fl tp nr] Cons.IH [of found fl tp "nr + 1"]
      Cons.IH [of "Some a" "rmap_hlist_len (nodes s a)" "PAGE (kpfn (nodes s a))" "nr + 1"]
    by (auto split: if_splits)
qed

lemma dup_select_prune:
  assumes "dup_select True s ds (found, fl, tp, nr) = (found', fl', tp', nr')"
  defines "cs \<equiv> filter (\<lambda>d. page_live s d \<and> is_page_sharing_candidate s (nodes s d)) ds"
  shows "(found' = None \<longleftrightarrow> found = None \<and> cs = []) \<and>
         (\<forall>d. found' = Some d \<longrightarrow>
            (found = Some d \<and> fl' = fl \<and> tp' = tp \<and> (\<forall>x\<in>set cs. rmap_hlist_len (nodes s x) \<le> fl)) \<or>
            (\<exists>pre post. cs = pre @ d # post \<and> fl' = rmap_hlist_len (nodes s d) \<and>
               tp' = PAGE (kpfn (nodes s d)) \<and>
               (found \<noteq> None \<longrightarrow> fl < rmap_hlist_len (nodes s d)) \<and>
               (\<forall>x\<in>set pre. rmap_hlist_len (nodes s x) < rmap_hlist_len (nodes s d)) \<and>
               (\<forall>x\<in>set post. rmap_hlist_len (nodes s x) \<le> rmap_hlist_len (nodes s d))))"
  using assms(1) unfolding cs_def
proof (induction ds arbitrary: found fl tp nr)
  case Nil
  then show ?case by auto
next
  case (Cons a ds)
  let ?cs = "filter (\<lambda>d. page_live s d \<and> is_page_sharing_candidate s (nodes s d)) ds"
  let ?len = "\<lambda>x. rmap_hlist_len (nodes s x)"
  consider (skip) "\<not> (page_live s a \<and> is_page_sharing_candidate s (nodes s a))"
    | (take) "page_live s a" "is_page_sharing_candidate s (nodes s a)"
        "found = None \<or> ?len a > fl"
    | (keep) "page_live s a" "is_page_sharing_candidate s (nodes s a)"
        "found \<noteq> None" "?len a \<le> fl"
    by fastforce
  then show ?case
  proof cases
    case skip
    then have "\<exists>n. dup_select True s ds (found, fl, tp, n) = (found', fl', tp', nr')"
      using Cons.prems by (auto split: if_splits)
    then obtain n where "dup_select True s ds (found, fl, tp, n) = (found', fl', tp', nr')" ..
    from Cons.IH [OF this] skip show ?thesis by auto
  next
    case take
    then have sel: "dup_select True s ds (Some a, ?len a, PAGE (kpfn (nodes s a)), nr + 1)
        = (found', fl', tp', nr')"
      using Cons.prems by (auto split: if_splits)
    note ih = Cons.IH [OF sel]
    have cs: "filter (\<lambda>d. page_live s d \<and> is_page_sharing_candidate s (nodes s d)) (a # ds)
        = a # ?cs" using take by simp
    from ih obtain d where d: "found' = Some d" by (cases found') auto
    from ih d consider
      (same) "d = a" "fl' = ?len a" "tp' = PAGE (kpfn (nodes s a))" "\<forall>x\<in>set ?cs. ?len x \<le> ?len a"
      | (later) pre post where "?cs = pre @ d # post" "fl' = ?len d" "tp' = PAGE (kpfn (nodes s d))"
          "?len a < ?len d" "\<forall>x\<in>set pre. ?len x < ?len d" "\<forall>x\<in>set post. ?len x \<le> ?len d"
      by auto
    then show ?thesis
    proof cases
      case same
      have "a # ?cs = [] @ d # ?cs" using same by simp
      then show ?thesis unfolding cs using same d take(3)
        by (intro conjI allI impI disjI2 exI [of _ "[]"] exI [of _ "?cs"]) auto
    next
      case later
      have "a # ?cs = (a # pre) @ d # post" using later by simp
      then show ?thesis unfolding cs using later d take(3)
        by (intro conjI allI impI disjI2 exI [of _ "a # pre"] exI [of _ "post"]) auto
    qed
  next
    case keep
    then have sel: "dup_select True s ds (found, fl, tp, nr + 1) = (found', fl', tp', nr')"
      using Cons.prems by (auto split: if_splits)
    note ih = Cons.IH [OF sel]
    have cs: "filter (\<lambda>d. page_live s d \<and> is_page_sharing_candidate s (nodes s d)) (a # ds)
        = a # ?cs" using keep by simp
    from ih keep(3) obtain d where d: "found' = Some d" by (cases found') auto
    from ih d consider
      (same) "found = Some d" "fl' = fl" "tp' = tp" "\<forall>x\<in>set ?cs. ?len x \<le> fl"
      | (later) pre post where "?cs = pre @ d # post" "fl' = ?len d" "tp' = PAGE (kpfn (nodes s d))"
          "fl < ?len d" "\<forall>x\<in>set pre. ?len x < ?len d" "\<forall>x\<in>set post. ?len x \<le> ?len d"
      using keep(3) by auto
    then show ?thesis
    proof cases
      case same
      then show ?thesis unfolding cs using d keep(4) by auto
    next
      case later
      have "a # ?cs = (a # pre) @ d # post" using later by simp
      then show ?thesis unfolding cs using later d keep
        by (intro conjI allI impI disjI2 exI [of _ "a # pre"] exI [of _ "post"]) auto
    qed
  qed
qed

lemma dup_select_first:
  "dup_select False s ds (None, fl, tp, nr) = (found', fl', tp', nr') \<Longrightarrow>
   found' = (case filter (\<lambda>d. page_live s d \<and> is_page_sharing_candidate s (nodes s d)) ds of
               [] \<Rightarrow> None | d # _ \<Rightarrow> Some d)"
  by (induction ds arbitrary: fl tp nr) (auto split: if_splits)

lemma dup_select_agree:
  assumes "pages s' = pages s" "ksm_max_page_sharing s' = ksm_max_page_sharing s"
    "\<forall>d\<in>set ds. nodes s' d = nodes s d"
  shows "dup_select prune s' ds acc = dup_select prune s ds acc \<and>
         dup_removed prune s' ds acc = dup_removed prune s ds acc"
  using assms(3)
proof (induction ds arbitrary: acc)
  case Nil
  show ?case by simp
next
  case (Cons d ds)
  obtain found fl tp nr where acc: "acc = (found, fl, tp, nr)" by (cases acc) auto
  have n: "nodes s' d = nodes s d" using Cons.prems by simp
  have eqs: "page_live s' d = page_live s d"
    "is_page_sharing_candidate s' (nodes s d) = is_page_sharing_candidate s (nodes s d)"
    by (simp_all add: page_live_def is_page_sharing_candidate_def
        u_is_page_sharing_candidate_def n assms(1,2))
  have ih: "\<And>a. dup_select prune s' ds a = dup_select prune s ds a"
     "\<And>a. dup_removed prune s' ds a = dup_removed prune s ds a"
    using Cons.IH Cons.prems by auto
  show ?case using ih by (cases prune) (auto simp: acc eqs n)
qed

lemma chain_not_member: "chain_ok s c \<Longrightarrow> c \<notin> set (hlist (nodes s c))"
  using dup_ok_not_chain by (auto simp: chain_ok_def)

lemma stable_node_dup_walk_chain:
  assumes ok: "chain_ok s c"
  shows "\<exists>s1. stable_node_dup_walk prune (hlist (nodes s c)) acc (prune_stamp prune c s) =
            Inr (dup_select prune s (hlist (nodes s c)) acc, s1) \<and>
          dups_pruned (dup_removed prune s (hlist (nodes s c)) acc) (prune_stamp prune c s) s1"
proof -
  let ?s0 = "prune_stamp prune c s"
  let ?ds = "hlist (nodes s c)"
  have c: "c \<notin> set ?ds" by (rule chain_not_member [OF ok])
  have same: "pages ?s0 = pages s" "ksm_max_page_sharing ?s0 = ksm_max_page_sharing s"
    "\<forall>d\<in>set ?ds. nodes ?s0 d = nodes s d"
    using c by (auto simp: prune_stamp_def)
  have ok0: "\<forall>d\<in>set ?ds. dup_ok ?s0 d"
    using ok same by (auto simp: chain_ok_def dup_ok_def page_frozen_def)
  have dist: "distinct ?ds" using ok by (simp add: chain_ok_def)
  from stable_node_dup_walk_select [OF dist ok0, of prune acc]
  show ?thesis using dup_select_agree [OF same, of prune acc] by simp
qed

lemma stable_node_dup_unfold:
  "stable_node_dup c p s =
     (let prune = (p \<and> prune_due s c) in
      case stable_node_dup_walk prune (hlist (nodes s c)) (None, 0, NULL_PAGE, 0)
             (prune_stamp prune c s) of
           Inl e \<Rightarrow> Inl e
         | Inr ((None, found_len, tree_page, nr), s1) \<Rightarrow> Inr ((None, c, tree_page), s1)
         | Inr ((Some found, found_len, tree_page, nr), s1) \<Rightarrow>
             if prune \<and> nr = 1 then
               (case hlist (nodes s1 c) of
                  [first] \<Rightarrow>
                    let s2 = s1\<lparr>root_stable_tree := rb_replace_node c found (root_stable_tree s1),
                                nodes := (nodes s1)(found := (nodes s1 found)\<lparr>head := IN_TREE\<rparr>)\<rparr>;
                        s3 = free_stable_node c s2
                    in Inr ((Some found, found, tree_page),
                            s3\<lparr>ksm_stable_node_chains := ksm_stable_node_chains s3 - 1,
                               ksm_stable_node_dups := ksm_stable_node_dups s3 - 1\<rparr>)
                | _ \<Rightarrow> Inl BUG)
             else if (case hlist (nodes s1 c) of [] \<Rightarrow> True | first # _ \<Rightarrow> first \<noteq> found) \<and>
                     u_is_page_sharing_candidate s1 (nodes s1 found) 1 then
               Inr ((Some found, c, tree_page),
                    s1\<lparr>nodes := (nodes s1)(c := (nodes s1 c)
                          \<lparr>hlist := found # remove1 found (hlist (nodes s1 c))\<rparr>)\<rparr>)
             else Inr ((Some found, c, tree_page), s1))"
  by (simp add: stable_node_dup_def prune_stamp_def prune_due_def Let_def)


lemma stable_node_dup_collapse_asserts:
  assumes "stable_node_dup c p s = Inr ((Some f, sn, pg), s')" "sn \<noteq> c"
  shows "length (hlist (nodes s' c)) = 1"
  using assms
  by (auto simp: stable_node_dup_unfold Let_def free_stable_node_def
      split: sum.splits prod.splits option.splits if_splits list.splits)



text \<open>
  C2, as the code has it. On a chain whose tagging is consistent, \<open>stable_node_dup\<close>
  returns. When it prunes (pruning was asked for and the prune interval has elapsed) it
  picks, among the dups whose page is live and which are sharing candidates, the first one
  of largest \<open>rmap_hlist_len\<close>: every candidate before it in walk order has strictly more
  headroom, every candidate after it at least as much. When it does not prune it picks the
  first live sharing candidate in walk order.
\<close>

theorem stable_node_dup_selects:
  assumes ok: "chain_ok s c"
  shows "\<exists>found sn pg s'. stable_node_dup c p s = Inr ((found, sn, pg), s') \<and>
           (if p \<and> prune_due s c
            then (found = None \<longleftrightarrow> live_candidates s c = []) \<and>
                 (\<forall>d. found = Some d \<longrightarrow>
                    (\<exists>pre post. live_candidates s c = pre @ d # post \<and>
                       (\<forall>x\<in>set pre. headroom s d < headroom s x) \<and>
                       (\<forall>x\<in>set post. headroom s d \<le> headroom s x)))
            else found = (case live_candidates s c of [] \<Rightarrow> None | d # _ \<Rightarrow> Some d))"
proof -
  let ?ds = "hlist (nodes s c)"
  let ?prune = "p \<and> prune_due s c"
  let ?s0 = "prune_stamp ?prune c s"
  obtain found fl tp nr where sel: "dup_select ?prune s ?ds (None, 0, NULL_PAGE, 0) = (found, fl, tp, nr)"
    by (cases "dup_select ?prune s ?ds (None, 0, NULL_PAGE, 0)") auto
  from stable_node_dup_walk_chain [OF ok, of ?prune "(None, 0, NULL_PAGE, 0)"]
  obtain s1 where w: "stable_node_dup_walk ?prune ?ds (None, 0, NULL_PAGE, 0) ?s0 = Inr ((found, fl, tp, nr), s1)"
    and fr: "dups_pruned (dup_removed ?prune s ?ds (None, 0, NULL_PAGE, 0)) ?s0 s1"
    by (auto simp: sel)
  have cnot: "c \<notin> set ?ds" by (rule chain_not_member [OF ok])
  have chain0: "is_stable_node_chain (nodes ?s0 c)" "hlist (nodes ?s0 c) = ?ds"
    using ok by (simp_all add: chain_ok_def prune_stamp_def is_stable_node_chain_def)
  have ret: "\<exists>sn pg s'. stable_node_dup c p s = Inr ((found, sn, pg), s')"
  proof (cases "?prune \<and> nr = 1 \<and> found \<noteq> None")
    case True
    then have pr: "?prune" and nr: "nr = 1" by auto
    have "c \<notin> set (filter (\<lambda>x. \<not> page_live s x) ?ds)" using cnot by simp
    then have "nodes s1 c = (nodes ?s0 c)\<lparr>hlist := fold remove1 (filter (\<lambda>x. \<not> page_live s x) ?ds) ?ds\<rparr>"
      using fr chain0 pr by (simp add: dups_pruned_def dup_removed_prune)
    moreover have "fold remove1 (filter (\<lambda>x. \<not> page_live s x) ?ds) ?ds = filter (page_live s) ?ds"
      using ok by (simp add: fold_remove1_stale chain_ok_def)
    ultimately have hl: "hlist (nodes s1 c) = filter (page_live s) ?ds" by simp
    have "length (filter (page_live s) ?ds) = 1"
      using dup_select_nr [of s ?ds None 0 NULL_PAGE 0 found fl tp nr] sel pr nr by simp
    then obtain x where "hlist (nodes s1 c) = [x]"
      unfolding hl by (cases "filter (page_live s) ?ds") auto
    then show ?thesis
      using True w by (cases found) (auto simp: stable_node_dup_unfold Let_def)
  next
    case False
    then show ?thesis
      using w by (cases found) (auto simp: stable_node_dup_unfold Let_def)
  qed
  have len: "\<And>x y. (rmap_hlist_len (nodes s x) < rmap_hlist_len (nodes s y)) = (headroom s y < headroom s x)"
    "\<And>x y. (rmap_hlist_len (nodes s x) \<le> rmap_hlist_len (nodes s y)) = (headroom s y \<le> headroom s x)"
    by (auto simp: headroom_def)
  show ?thesis
  proof (cases ?prune)
    case True
    with sel have sel': "dup_select True s ?ds (None, 0, NULL_PAGE, 0) = (found, fl, tp, nr)" by simp
    from dup_select_prune [OF sel'] ret True show ?thesis
      by (simp add: live_candidates_def len) blast
  next
    case False
    with sel have sel': "dup_select False s ?ds (None, 0, NULL_PAGE, 0) = (found, fl, tp, nr)" by simp
    from dup_select_first [OF sel'] ret False show ?thesis
      by (auto simp add: live_candidates_def)
  qed
qed

theorem stable_node_dup_selects_witness:
  "chain_ok chain_example 0 \<and> prune_due chain_example 0 \<and>
   live_candidates chain_example 0 = [2, 1] \<and>
   (\<exists>sn pg s'. stable_node_dup 0 True chain_example = Inr ((Some 2, sn, pg), s')) \<and>
   headroom chain_example 2 \<le> headroom chain_example 1"
proof -
  have ok: "chain_ok chain_example 0" by code_simp
  have due: "prune_due chain_example 0" by code_simp
  have lc: "live_candidates chain_example 0 = [2, 1]" by code_simp
  have hr: "headroom chain_example 2 \<le> headroom chain_example 1" by code_simp
  have f: "fst (fst (projr (stable_node_dup 0 True chain_example))) = Some 2" by code_simp
  from stable_node_dup_selects [OF ok, of True]
  obtain found sn pg s' where
    r: "stable_node_dup 0 True chain_example = Inr ((found, sn, pg), s')" by blast
  with f have "found = Some 2" by simp
  with r ok due lc hr show ?thesis by blast
qed

text \<open>
  C2, as the specification states it, fails: in \<open>chain_example\<close> dups 2 and 1 are both live
  with headroom, dup 1 has more headroom than dup 2, and the lookup returns dup 2, with
  pruning and without.
\<close>

theorem stable_node_dup_largest_headroom_counterexample:
  "fst (fst (projr (stable_node_dup 0 True chain_example))) = Some 2 \<and>
   fst (fst (projr (stable_node_dup 0 False chain_example))) = Some 2 \<and>
   largest_headroom_first chain_example (hlist (nodes chain_example 0)) None = Some 1 \<and>
   page_live chain_example 1 \<and> page_live chain_example 2 \<and>
   headroom chain_example 2 = 251 \<and> headroom chain_example 1 = 253"
  by code_simp

section \<open>The counters ksm_pages_shared and ksm_pages_sharing\<close>

lemma page_mask_stable [simp]: "(a AND PAGE_MASK) AND STABLE_FLAG = 0"
  by (simp add: PAGE_MASK_def PAGE_SIZE_def STABLE_FLAG_def and.assoc)

lemma page_mask_unstable [simp]: "(a AND PAGE_MASK) AND UNSTABLE_FLAG = 0"
  by (simp add: PAGE_MASK_def PAGE_SIZE_def UNSTABLE_FLAG_def and.assoc)










lemma remove_node_items_cache [simp]:
  "rmap_item_cache (remove_node_items n rs s) = rmap_item_cache s"
  by (induction n rs s rule: remove_node_items.induct) (simp_all add: Let_def)
















lemma share_example_inv: "store_inv share_example"
  by code_simp



section \<open>The unstable tree search\<close>

lemma unstable_tree_walk_vanished:
  "x \<in> set (unstable_tree_visited s page t) \<Longrightarrow> get_mergeable_page s x = None \<Longrightarrow>
   unstable_tree_walk s page t path = U_NULL"
proof (induction t arbitrary: path)
  case Leaf
  then show ?case by simp
next
  case (Node l a r)
  show ?case
  proof (cases "get_mergeable_page s a")
    case None
    then show ?thesis by simp
  next
    case (Some tree_page)
    with Node.prems have "x \<noteq> a" by auto
    with Node show ?thesis
      by (auto simp: Some Let_def split: if_splits)
  qed
qed

text \<open>
  Claim C9.  When \<open>get_mergeable_page\<close> returns NULL for an rmap_item that the walk of
  \<open>unstable_tree_search_insert\<close> comes to, the function returns NULL at once: no tree_page
  is reported, the rmap_item asking is not linked into the tree, and the state is left as
  it was (the stale rmap_item stays in the tree).
\<close>

theorem unstable_search_vanished:
  assumes "x \<in> set (unstable_tree_visited s page (root_unstable_tree s))"
    and "get_mergeable_page s x = None"
  shows "unstable_tree_search_insert rmap_item page s = (None, s)"
  using unstable_tree_walk_vanished [OF assms, of "[]"]
  by (simp add: unstable_tree_search_insert_def)

theorem unstable_search_vanished_witness:
  "unstable_tree_visited vanished_example 2 (root_unstable_tree vanished_example) = [1, 3] \<and>
   get_mergeable_page vanished_example 3 = None \<and>
   unstable_tree_search_insert 2 2 vanished_example = (None, vanished_example)"
proof -
  have v: "unstable_tree_visited vanished_example 2 (root_unstable_tree vanished_example) = [1, 3]"
    by code_simp
  have g: "get_mergeable_page vanished_example 3 = None" by code_simp
  have "3 \<in> set (unstable_tree_visited vanished_example 2 (root_unstable_tree vanished_example))"
    unfolding v by simp
  from unstable_search_vanished [OF this g] v g show ?thesis by blast
qed

section \<open>The checksum test of the matching engine\<close>





section \<open>The sharing limit\<close>

lemma bounded_step_store_step: "bounded_step s s' \<Longrightarrow> store_step s s'"
  by (induction rule: bounded_step.induct) (auto intro: store_step.intros)













end
